theory Spec2Isabelle
  imports Main "HOL-Library.Word"
begin

section \<open>Comment association for the definition tree (deftree/associate\_comments.go)\<close>

text \<open>
  The package walks the source locations of a compiler request, turns the integer path of
  each commented location into a path of names by reflection over the descriptor
  structs, and writes the scrubbed comment into the definition tree. The model below has
  the functions of \<^verbatim>\<open>associate_comments.go\<close> under their own names, over a datatype
  of reflected values; a panic is a result of its own, an error return is the left of a
  sum, and what the driver does to the logger and to the tree is a list of effects.
\<close>

subsection \<open>Strings and the library functions the package calls\<close>

text \<open>
  A Go string is a sequence of bytes, here a \<^typ>\<open>string\<close>. Every pattern the package
  searches for is made of ASCII characters, and no byte of a multi-byte UTF-8 sequence is
  an ASCII byte, so working on bytes gives the same result as Go's working on runes.
\<close>

text \<open>
  \<^verbatim>\<open>strings.Replace(s, old, new, -1)\<close>: every non-overlapping instance of \<open>old\<close>,
  found from left to right, is replaced by \<open>new\<close>. The package only passes a non-empty
  \<open>old\<close>; for an empty one Go inserts \<open>new\<close> around every UTF-8 sequence, which is not
  modelled (the string is returned as it is).
\<close>

function Replace :: "string \<Rightarrow> string \<Rightarrow> string \<Rightarrow> string" where
  "Replace s old new =
     (if s = [] \<or> old = [] then s
      else if take (length old) s = old then new @ Replace (drop (length old) s) old new
      else hd s # Replace (tl s) old new)"
  by pat_completeness auto
termination
  by (relation "measure (\<lambda>(s, old, new). length s)") auto

declare Replace.simps [simp del]

text \<open>
  The class \<^verbatim>\<open>\s\<close> of Go's regular expressions: tab, newline, form feed, carriage
  return and space (the vertical tab is not in it).
\<close>

definition isSpace :: "char \<Rightarrow> bool" where
  "isSpace c \<longleftrightarrow>
     c = CHR 0x09 \<or> c = CHR ''\<newline>'' \<or> c = CHR 0x0C \<or> c = CHR 0x0D \<or> c = CHR '' ''"

text \<open>
  \<^verbatim>\<open>regexp.MustCompile("^/*\\s*").ReplaceAllString(s, "")\<close>. The expression is
  \<^verbatim>\<open>^/*\s*\<close>: at the start of the text, as many slashes as there are, then as
  much white space as there is. It matches once, at offset 0, and the match is removed.
  An asterisk is not matched: in the expression it is the repetition operator.
\<close>

definition beginning_slash :: "string \<Rightarrow> string" where
  "beginning_slash s = dropWhile isSpace (dropWhile (\<lambda>c. c = CHR ''/'') s)"

text \<open>
  \<^verbatim>\<open>regexp.MustCompile("\\s*$").ReplaceAllString(s, "")\<close>. Without the multi-line
  flag \<^verbatim>\<open>$\<close> matches at the end of the text only, so the leftmost match starts
  where the final run of white space starts, and that run is removed.
\<close>

definition trailing_whitespace :: "string \<Rightarrow> string" where
  "trailing_whitespace s = rev (dropWhile isSpace (rev s))"

text \<open>
  \<^verbatim>\<open>regexp.MustCompile("\\s+\n").ReplaceAllString(s, "\n")\<close>. A match lies inside one
  maximal run of white space. Go takes the leftmost match and, the repetition being
  greedy, the longest one from there: in a run that has a newline after its first
  character the match goes from the start of the run up to the last newline of the run,
  and it is replaced by one newline. What follows that newline in the run has no newline,
  so it holds no further match. A run with no newline after its first character holds no
  match and stays.
\<close>

definition after_last_newline :: "string \<Rightarrow> string" where
  "after_last_newline run = rev (takeWhile (\<lambda>c. c \<noteq> CHR ''\<newline>'') (rev run))"

function line_trail_ws :: "string \<Rightarrow> string" where
  "line_trail_ws [] = []"
| "line_trail_ws (c # cs) =
     (if isSpace c then
        (if CHR ''\<newline>'' \<in> set (takeWhile isSpace cs)
         then CHR ''\<newline>'' # after_last_newline (takeWhile isSpace cs)
         else c # takeWhile isSpace cs)
        @ line_trail_ws (dropWhile isSpace cs)
      else c # line_trail_ws cs)"
  by pat_completeness auto
termination
  by (relation "measure length") (auto simp: less_Suc_eq_le length_dropWhile_le)

subsection \<open>The comment scrubber\<close>

definition scrubComments :: "string \<Rightarrow> string" where
  "scrubComments comment =
     (let comment = Replace comment [CHR ''\<newline>'', CHR ''/'', CHR '' ''] [CHR ''\<newline>''];
          comment = Replace comment [CHR ''\<newline>'', CHR ''/''] [CHR ''\<newline>''];
          comment = beginning_slash comment;
          comment = trailing_whitespace comment;
          comment = line_trail_ws comment
      in comment)"

subsection \<open>Struct tags\<close>

text \<open>
  \<^verbatim>\<open>strings.Split(s, sep)\<close> for a separator of one character, which is how the package
  calls it (\<^verbatim>\<open>","\<close> and \<^verbatim>\<open>"="\<close>): the pieces between the separators, at least one
  piece, the empty string giving one empty piece.
\<close>

fun Split :: "string \<Rightarrow> char \<Rightarrow> string list" where
  "Split [] sep = [[]]"
| "Split (c # cs) sep =
     (if c = sep then [] # Split cs sep
      else (case Split cs sep of [] \<Rightarrow> [[c]] | piece # pieces \<Rightarrow> (c # piece) # pieces))"

text \<open>
  \<^verbatim>\<open>strconv.Atoi\<close> with its error dropped, as in \<^verbatim>\<open>pfield_n, _ = strconv.Atoi(...)\<close>:
  an optional sign and decimal digits; with a syntax error the value returned is 0, with
  a range error the nearest 64-bit integer.
\<close>

definition isDigit :: "char \<Rightarrow> bool" where
  "isDigit ch \<longleftrightarrow> (48::nat) \<le> of_char ch \<and> of_char ch \<le> (57::nat)"

fun decimal :: "int \<Rightarrow> string \<Rightarrow> int" where
  "decimal n [] = n"
| "decimal n (ch # s) = decimal (n * 10 + (of_char ch - 48)) s"

definition Atoi :: "string \<Rightarrow> int" where
  "Atoi s0 =
     (let s = (if s0 \<noteq> [] \<and> (hd s0 = CHR ''-'' \<or> hd s0 = CHR ''+'') then tl s0 else s0) in
      if s = [] \<or> \<not> list_all isDigit s then 0
      else if s0 \<noteq> [] \<and> hd s0 = CHR ''-'' then max (- (2 ^ 63)) (- decimal 0 s)
      else min (2 ^ 63 - 1) (decimal 0 s))"

definition protoFieldLabel :: "string \<Rightarrow> string" where
  "protoFieldLabel proto_tag =
     (let comma_split = Split proto_tag CHR '','' in
      if length comma_split > 3 then
        (let eq_split = Split (comma_split ! 3) CHR ''='' in
         if length eq_split > 1 then eq_split ! 1 else [])
      else [])"

subsection \<open>Reflected values\<close>

text \<open>
  The part of \<^verbatim>\<open>reflect.Value\<close> that the generated descriptor structs use. \<open>Zero\<close> is
  the zero Value (the result of \<^verbatim>\<open>Elem\<close> on a nil pointer and of \<^verbatim>\<open>FieldByName\<close>
  for a missing field); \<open>StringV\<close> a value of type \<^verbatim>\<open>string\<close>; \<open>PtrV v\<close> a pointer
  to \<open>v\<close>, the nil pointer being \<open>PtrV Zero\<close>, so that \<^verbatim>\<open>Elem\<close> takes the argument
  of \<open>PtrV\<close>; \<open>StructV\<close> a struct, one entry per Go field in declaration order, with the
  field's name, the value of the key \<^verbatim>\<open>protobuf\<close> in its struct tag (empty when the
  key is absent) and the field's value; \<open>SliceV\<close> a slice; \<open>OtherV\<close> a value of a
  boolean or numeric type.
\<close>

datatype Value =
    Zero
  | OtherV
  | StringV string
  | PtrV Value
  | StructV "(string \<times> string \<times> Value) list"
  | SliceV "Value list"

datatype reflect_Kind = Invalid | Other | String | Ptr | Struct | Slice

fun Kind :: "Value \<Rightarrow> reflect_Kind" where
  "Kind Zero = Invalid"
| "Kind OtherV = Other"
| "Kind (StringV s) = String"
| "Kind (PtrV v) = Ptr"
| "Kind (StructV fs) = Struct"
| "Kind (SliceV vs) = Slice"

text \<open>A call either returns or panics; a Go result \<^verbatim>\<open>(v, err)\<close> is a sum, the error on the left.\<close>

datatype 'a outcome = Returns 'a | Panics

datatype error =
    ExpectedStruct reflect_Kind
  | NoProtoField int
  | FieldLabel
  | SecondItemTooLong int nat

fun Len :: "Value \<Rightarrow> nat outcome" where
  "Len (SliceV vs) = Returns (length vs)"
| "Len (StringV s) = Returns (length s)"
| "Len v = Panics"

fun Index :: "Value \<Rightarrow> int \<Rightarrow> Value outcome" where
  "Index (SliceV vs) i = (if 0 \<le> i \<and> i < int (length vs) then Returns (vs ! nat i) else Panics)"
| "Index (StringV s) i = (if 0 \<le> i \<and> i < int (length s) then Returns OtherV else Panics)"
| "Index v i = Panics"

fun FieldByName :: "(string \<times> string \<times> Value) list \<Rightarrow> string \<Rightarrow> Value" where
  "FieldByName [] name = Zero"
| "FieldByName ((n, tag, v) # fs) name = (if n = name then v else FieldByName fs name)"

text \<open>
  \<^verbatim>\<open>*node.FieldByName("Name").Interface().(*string)\<close>: \<^verbatim>\<open>Interface\<close> panics on the
  zero Value, the type assertion panics unless the field is a pointer to a string, and
  the dereference panics on a nil pointer.
\<close>

definition Name_of :: "(string \<times> string \<times> Value) list \<Rightarrow> string outcome" where
  "Name_of fs = (case FieldByName fs ''Name'' of PtrV (StringV s) \<Rightarrow> Returns s | _ \<Rightarrow> Panics)"

subsection \<open>Finding a field by its protobuf field number\<close>

text \<open>
  The loop of \<^verbatim>\<open>getProtobufField\<close> over the fields of the struct type.
  \<^verbatim>\<open>strings.Split(tag, ",")[1]\<close> panics when a non-empty tag has no comma.
\<close>

fun getProtobufField_loop ::
    "int \<Rightarrow> (string \<times> string \<times> Value) list \<Rightarrow> (error + Value \<times> string) outcome" where
  "getProtobufField_loop proto_field [] = Returns (Inl (NoProtoField proto_field))"
| "getProtobufField_loop proto_field ((name, tag, v) # fs) =
     (let field_label = protoFieldLabel tag in
      if length tag \<noteq> 0 \<and> length (Split tag CHR '','') < 2 then Panics
      else
        (let pfield_n = (if length tag \<noteq> 0 then Atoi (Split tag CHR '','' ! 1) else - 1) in
         if pfield_n \<noteq> - 1 \<and> pfield_n = proto_field then Returns (Inr (v, field_label))
         else getProtobufField_loop proto_field fs))"

text \<open>\<^verbatim>\<open>proto_msg.Type().NumField()\<close> panics unless \<open>proto_msg\<close> is a struct.\<close>

fun getProtobufField :: "int \<Rightarrow> Value \<Rightarrow> (error + Value \<times> string) outcome" where
  "getProtobufField proto_field (StructV fs) = getProtobufField_loop proto_field fs"
| "getProtobufField proto_field proto_msg = Panics"

fun getCollectionIndex :: "Value \<Rightarrow> int \<Rightarrow> Value outcome" where
  "getCollectionIndex node index =
     (case Len node of
        Panics \<Rightarrow> Panics
      | Returns n \<Rightarrow> if index \<ge> int n then Panics else Index node index)"

subsection \<open>The resolver\<close>

text \<open>
  The \<^verbatim>\<open>switch\<close> at the head of \<^verbatim>\<open>buildNamePath\<close>: the name of this level and the
  node the rest of the function works on. A string is its own name. A pointer is replaced
  by what it points to and the name stays the empty string it was declared with (the nil
  pointer gives the zero Value). Any other node has to be a struct and the name is read
  from its field \<open>Name\<close>.
\<close>

fun name_switch :: "Value \<Rightarrow> (error + string \<times> Value) outcome" where
  "name_switch (StringV s) = Returns (Inr (s, StringV s))"
| "name_switch (PtrV v) = Returns (Inr ([], v))"
| "name_switch (StructV fs) =
     (case Name_of fs of Panics \<Rightarrow> Panics | Returns st_name \<Rightarrow> Returns (Inr (st_name, StructV fs)))"
| "name_switch node = Returns (Inl (ExpectedStruct (Kind node)))"

type_synonym int32 = "32 word"

text \<open>
  The path is a \<^verbatim>\<open>[]int32\<close>; \<^verbatim>\<open>int(path[i])\<close> is \<^term>\<open>sint\<close>. The first statement
  logs \<^verbatim>\<open>node.Type().String()\<close>, which panics on the zero Value.
\<close>

function buildNamePath :: "int32 list \<Rightarrow> Value \<Rightarrow> (error + string list) outcome" where
  "buildNamePath path node0 =
     (if Kind node0 = Invalid then Panics
      else
       (case name_switch node0 of
          Panics \<Rightarrow> Panics
        | Returns (Inl err) \<Rightarrow> Returns (Inl err)
        | Returns (Inr (st_name, node)) \<Rightarrow>
           (if length path = 0 then Returns (Inr [st_name])
            else
             (case getProtobufField (sint (path ! 0)) node of
                Panics \<Rightarrow> Panics
              | Returns (Inl err) \<Rightarrow> Returns (Inl err)
              | Returns (Inr (field, label)) \<Rightarrow>
                 (if length path = 1 then Returns (Inl FieldLabel)
                  else if Kind field \<noteq> Slice then
                   (case buildNamePath (drop 1 path) field of
                      Panics \<Rightarrow> Panics
                    | Returns (Inl err) \<Rightarrow> Returns (Inl err)
                    | Returns (Inr rv) \<Rightarrow> Returns (Inr ([st_name] @ rv)))
                  else
                   (case Len field of
                      Panics \<Rightarrow> Panics
                    | Returns field_Len \<Rightarrow>
                       (if sint (path ! 1) \<ge> int field_Len
                        then Returns (Inl (SecondItemTooLong (sint (path ! 1)) field_Len))
                        else
                         (case getCollectionIndex field (sint (path ! 1)) of
                            Panics \<Rightarrow> Panics
                          | Returns next_node \<Rightarrow>
                             (let clean_next =
                                    (case next_node of PtrV v \<Rightarrow> v | _ \<Rightarrow> next_node) in
                              (case buildNamePath (drop 2 path) clean_next of
                                 Panics \<Rightarrow> Panics
                               | Returns (Inl err) \<Rightarrow> Returns (Inl err)
                               | Returns (Inr rv) \<Rightarrow> Returns (Inr ([st_name] @ rv))))))))))))"
  by pat_completeness auto
termination
  by (relation "measure (\<lambda>(path, node). length path)") auto

declare buildNamePath.simps [simp del]

subsection \<open>The association driver\<close>

text \<open>\<^verbatim>\<open>cleanStr\<close>: newline, tab and double quote are written with a backslash.\<close>

definition cleanStr :: "string \<Rightarrow> string" where
  "cleanStr s =
     (let cleanval = Replace s [CHR ''\<newline>''] [CHR 0x5C, CHR ''n''];
          cleanval = Replace cleanval [CHR 0x09] [CHR 0x5C, CHR ''t''];
          cleanval = Replace cleanval [CHR 0x22] [CHR 0x5C, CHR 0x22]
      in cleanval)"

text \<open>\<^verbatim>\<open>strings.Contains(s, substr)\<close>.\<close>

fun Contains :: "string \<Rightarrow> string \<Rightarrow> bool" where
  "Contains [] substr = (substr = [])"
| "Contains (c # cs) substr = (take (length substr) (c # cs) = substr \<or> Contains cs substr)"

text \<open>
  A source location, a file descriptor and the compiler request, with the members the
  driver reads. The elements of the repeated fields are the non-nil pointers that
  unmarshalling a request produces. A file descriptor is a struct: \<open>struct_fields\<close> is what
  \<^verbatim>\<open>reflect.ValueOf(*file)\<close> shows, and \<^verbatim>\<open>GetName\<close> reads its field \<open>Name\<close>.
\<close>

record Location =
  Path :: "int32 list"
  LeadingComments :: "string option"
  LeadingDetachedComments :: "string list"

definition GetLeadingComments :: "Location \<Rightarrow> string" where
  "GetLeadingComments m = (case LeadingComments m of Some s \<Rightarrow> s | None \<Rightarrow> [])"

record FileDescriptorProto =
  struct_fields :: "(string \<times> string \<times> Value) list"
  SourceCodeInfo :: "Location list"

definition GetName :: "FileDescriptorProto \<Rightarrow> string" where
  "GetName m = (case FieldByName (struct_fields m) ''Name'' of PtrV (StringV s) \<Rightarrow> s | _ \<Rightarrow> [])"

record CodeGeneratorRequest =
  FileToGenerate :: "string list"
  ProtoFile :: "FileDescriptorProto list"

text \<open>
  Modelled from the spec: the interface \<^verbatim>\<open>Deftree\<close>, whose declaration and
  implementation are not in this file. \<^verbatim>\<open>SetDescription(text)\<close> always succeeds;
  \<^verbatim>\<open>SetComment(namePath, text)\<close> returns an error or none. The tree is a state of any
  type \<open>'dt\<close>; an error is given by its text, which is all the driver looks at.
\<close>

record 'dt Deftree =
  SetDescription :: "string \<Rightarrow> 'dt \<Rightarrow> 'dt"
  SetComment :: "string list \<Rightarrow> string \<Rightarrow> 'dt \<Rightarrow> string option \<times> 'dt"

text \<open>
  What the driver does that can be observed: its calls of the logger (with the fields
  \<open>location\<close>, \<open>leading comment\<close> and \<open>leading detached comment\<close> where the call has
  them) and its calls of the tree.
\<close>

datatype effect =
    Debug_package_name "int32 list" string "string list"
  | Debug_finding "int32 list" string "string list"
  | Debugf_couldnt_place string error
  | Errorf_cannot_set string
  | Call_SetDescription string
  | Call_SetComment "string list" string

text \<open>
  A pass ends normally or by a panic, which nothing in the package recovers; either way
  the tree and the effects so far are what they are.
\<close>

datatype 's pass = Done 's | Panicked 's

text \<open>The body of the loop over the locations of one file.\<close>

definition location_body ::
    "'dt Deftree \<Rightarrow> FileDescriptorProto \<Rightarrow> Location \<Rightarrow> 'dt \<times> effect list
      \<Rightarrow> ('dt \<times> effect list) pass" where
  "location_body dt file location st =
     (let lead = GetLeadingComments location; tree = fst st; out = snd st in
      if length lead > 1 \<or> length (LeadingDetachedComments location) > 1 then
        if length (Path location) = 1 then
          Done (SetDescription dt (scrubComments lead) tree,
                out @ [Debug_package_name (Path location) (cleanStr lead)
                         (LeadingDetachedComments location),
                       Call_SetDescription (scrubComments lead)])
        else
          (let out = out @ [Debug_finding (Path location) (cleanStr lead)
                              (LeadingDetachedComments location)] in
           (case buildNamePath (Path location) (StructV (struct_fields file)) of
              Panics \<Rightarrow> Panicked (tree, out)
            | Returns (Inl err) \<Rightarrow>
                Done (tree, out @ [Debugf_couldnt_place (cleanStr lead) err])
            | Returns (Inr name_path) \<Rightarrow>
               (case SetComment dt name_path (scrubComments lead) tree of
                  (None, tree') \<Rightarrow>
                    Done (tree', out @ [Call_SetComment name_path (scrubComments lead)])
                | (Some err, tree') \<Rightarrow>
                   (if \<not> Contains err ''cannot find node''
                    then Done (tree', out @ [Call_SetComment name_path (scrubComments lead),
                                             Errorf_cannot_set err])
                    else Done (tree',
                               out @ [Call_SetComment name_path (scrubComments lead)])))))
      else Done st)"

fun locations_loop ::
    "'dt Deftree \<Rightarrow> FileDescriptorProto \<Rightarrow> Location list \<Rightarrow> 'dt \<times> effect list
      \<Rightarrow> ('dt \<times> effect list) pass" where
  "locations_loop dt file [] st = Done st"
| "locations_loop dt file (location # locations) st =
     (case location_body dt file location st of
        Panicked st' \<Rightarrow> Panicked st'
      | Done st' \<Rightarrow> locations_loop dt file locations st')"

text \<open>The inner loop \<^verbatim>\<open>for _, gen := range req.FileToGenerate\<close> that computes \<open>skip\<close>.\<close>

fun skip_loop :: "FileDescriptorProto \<Rightarrow> string list \<Rightarrow> bool \<Rightarrow> bool" where
  "skip_loop file [] skip = skip"
| "skip_loop file (gen # gens) skip =
     skip_loop file gens (if GetName file = gen then False else skip)"

fun files_loop ::
    "'dt Deftree \<Rightarrow> CodeGeneratorRequest \<Rightarrow> FileDescriptorProto list \<Rightarrow> 'dt \<times> effect list
      \<Rightarrow> ('dt \<times> effect list) pass" where
  "files_loop dt req [] st = Done st"
| "files_loop dt req (file # files) st =
     (if skip_loop file (FileToGenerate req) True then files_loop dt req files st
      else
       (case locations_loop dt file (SourceCodeInfo file) st of
          Panicked st' \<Rightarrow> Panicked st'
        | Done st' \<Rightarrow> files_loop dt req files st'))"

definition AssociateComments ::
    "'dt Deftree \<Rightarrow> 'dt \<Rightarrow> CodeGeneratorRequest \<Rightarrow> ('dt \<times> effect list) pass" where
  "AssociateComments dt tree req = files_loop dt req (ProtoFile req) (tree, [])"

subsection \<open>Example descriptors\<close>

text \<open>
  A file \<open>svc.proto\<close> with one message \<open>Widget\<close> that has one field \<open>id\<close>, with the
  struct tags of the generated descriptor types (field 4 of a file is its list of
  messages, field 2 of a message its list of fields).
\<close>

definition widget_fields :: "(string \<times> string \<times> Value) list" where
  "widget_fields =
     [(''Name'', ''bytes,1,opt,name=name'', PtrV (StringV ''Widget'')),
      (''Field'', ''bytes,2,rep,name=field'',
         SliceV [PtrV (StructV [(''Name'', ''bytes,1,opt,name=name'', PtrV (StringV ''id''))])])]"

definition file_fields :: "(string \<times> string \<times> Value) list" where
  "file_fields =
     [(''Name'', ''bytes,1,opt,name=name'', PtrV (StringV ''svc.proto'')),
      (''Package'', ''bytes,2,opt,name=package'', PtrV (StringV ''svc'')),
      (''MessageType'', ''bytes,4,rep,name=message_type,json=messageType'',
         SliceV [PtrV (StructV widget_fields)])]"


subsection \<open>Reading the result of a pass\<close>

text \<open>
  The state a pass ends in; the files and locations the driver looks at (a file is
  processed when its name is among the files to generate, a location when it has a
  leading comment of more than one character or more than one detached comment); and
  the text that an effect writes to the tree, if it writes one.
\<close>

fun final :: "'s pass \<Rightarrow> 's" where
  "final (Done st) = st"
| "final (Panicked st) = st"

definition to_generate :: "CodeGeneratorRequest \<Rightarrow> FileDescriptorProto \<Rightarrow> bool" where
  "to_generate req file \<longleftrightarrow> GetName file \<in> set (FileToGenerate req)"

definition has_comment :: "Location \<Rightarrow> bool" where
  "has_comment location \<longleftrightarrow>
     length (GetLeadingComments location) > 1 \<or> length (LeadingDetachedComments location) > 1"

definition commented_locations ::
    "CodeGeneratorRequest \<Rightarrow> (FileDescriptorProto \<times> Location) list" where
  "commented_locations req =
     concat (map (\<lambda>file. map (Pair file) (filter has_comment (SourceCodeInfo file)))
               (filter (to_generate req) (ProtoFile req)))"

fun written_text :: "effect \<Rightarrow> string option" where
  "written_text (Call_SetDescription text) = Some text"
| "written_text (Call_SetComment name_path text) = Some text"
| "written_text e = None"

subsection \<open>Example requests\<close>

text \<open>
  A tree that records the calls made on it, with the error of \<^verbatim>\<open>SetComment\<close> as a
  parameter, and locations for the example file: the comment of the package, the comment
  of the message, two locations whose index names no message, and a location that has
  detached comments only.
\<close>

definition recording_tree ::
    "(string list \<Rightarrow> string option) \<Rightarrow> (string list \<times> string) list Deftree" where
  "recording_tree err =
     \<lparr> SetDescription = (\<lambda>text tree. tree @ [([], text)]),
       SetComment = (\<lambda>name_path text tree. (err name_path, tree @ [(name_path, text)])) \<rparr>"

definition package_location :: Location where
  "package_location =
     \<lparr> Path = [2], LeadingComments = Some '' General package\<newline>'',
       LeadingDetachedComments = [] \<rparr>"

definition widget_location :: Location where
  "widget_location =
     \<lparr> Path = [4, 0], LeadingComments = Some '' Widget is so foo\<newline>'',
       LeadingDetachedComments = [] \<rparr>"

definition negative_index_location :: Location where
  "negative_index_location =
     \<lparr> Path = [4, - 1], LeadingComments = Some '' no such message\<newline>'',
       LeadingDetachedComments = [] \<rparr>"

definition index_too_long_location :: Location where
  "index_too_long_location =
     \<lparr> Path = [4, 5], LeadingComments = Some '' no such message\<newline>'',
       LeadingDetachedComments = [] \<rparr>"

definition detached_only_location :: Location where
  "detached_only_location =
     \<lparr> Path = [2], LeadingComments = None,
       LeadingDetachedComments = ['' License text\<newline>'', '' Authors\<newline>''] \<rparr>"

definition request_of :: "Location list \<Rightarrow> CodeGeneratorRequest" where
  "request_of locations =
     \<lparr> FileToGenerate = [''svc.proto''],
       ProtoFile = [\<lparr> struct_fields = file_fields, SourceCodeInfo = locations \<rparr>] \<rparr>"

section \<open>Properties\<close>

subsection \<open>Unfolding the resolver\<close>


lemma name_switch_Struct:
  "Name_of fs = Returns n \<Longrightarrow> name_switch (StructV fs) = Returns (Inr (n, StructV fs))"
  by simp




lemma name_switch_valid: "name_switch node0 = Returns (Inr (st_name, node)) \<Longrightarrow> Kind node0 \<noteq> Invalid"
  by (cases node0) auto


lemma two_le_length: "2 \<le> length path \<longleftrightarrow> path \<noteq> [] \<and> length path \<noteq> Suc 0"
  by (cases path; cases "tl path") auto

lemma call_shortens:
  assumes "buildNamePath_rel (path', node') (path, node0)"
  shows "\<exists>st_name node field label.
           name_switch node0 = Returns (Inr (st_name, node)) \<and>
           getProtobufField (sint (path ! 0)) node = Returns (Inr (field, label)) \<and>
           2 \<le> length path \<and>
           (if Kind field \<noteq> Slice then path' = drop 1 path \<and> node' = field
            else path' = drop 2 path)"
  using assms
  by (cases rule: buildNamePath_rel.cases) (auto simp: two_le_length)


lemma call_slice:
  assumes "name_switch node0 = Returns (Inr (st_name, node))"
    and "getProtobufField (sint p0) node = Returns (Inr (SliceV vs, label))"
    and "0 \<le> sint p1" and "sint p1 < int (length vs)"
    and "clean_next = (case vs ! nat (sint p1) of PtrV v \<Rightarrow> v | _ \<Rightarrow> vs ! nat (sint p1))"
  shows "buildNamePath_rel (rest, clean_next) (p0 # p1 # rest, node0)"
  using buildNamePath_rel.intros(2) [of node0 "Inr (st_name, node)" "(st_name, node)" st_name node
      "p0 # p1 # rest" "Inr (SliceV vs, label)" "(SliceV vs, label)" "SliceV vs" label
      "length vs" "vs ! nat (sint p1)" clean_next]
    assms name_switch_valid [OF assms(1)]
  by simp

lemma call_non_slice:
  assumes "name_switch node0 = Returns (Inr (st_name, node))"
    and "getProtobufField (sint p0) node = Returns (Inr (field, label))"
    and "Kind field \<noteq> Slice"
  shows "buildNamePath_rel (p1 # rest, field) (p0 # p1 # rest, node0)"
  using buildNamePath_rel.intros(1) [of node0 "Inr (st_name, node)" "(st_name, node)" st_name node
      "p0 # p1 # rest" "Inr (field, label)" "(field, label)" field label]
    assms name_switch_valid [OF assms(1)]
  by simp


text \<open>The example descriptors, looked up.\<close>

lemma example_file_Name: "Name_of file_fields = Returns ''svc.proto''"
  by (simp add: Name_of_def file_fields_def)

lemma example_file_messages:
  "getProtobufField (sint (4::int32)) (StructV file_fields)
     = Returns (Inr (SliceV [PtrV (StructV widget_fields)], ''message_type''))"
  by (simp add: file_fields_def Atoi_def isDigit_def protoFieldLabel_def)



text \<open>The driver, unfolded.\<close>

lemma skip_loop_eq: "skip_loop file gens skip \<longleftrightarrow> skip \<and> GetName file \<notin> set gens"
  by (induction gens arbitrary: skip) auto

lemma location_body_no_comment:
  "\<not> has_comment location \<Longrightarrow> location_body dt file location st = Done st"
  by (simp add: location_body_def has_comment_def Let_def)

lemma location_body_Done:
  assumes "has_comment location \<and> length (Path location) \<noteq> 1 \<longrightarrow>
           buildNamePath (Path location) (StructV (struct_fields file)) \<noteq> Panics"
  shows "location_body dt file location st = Done (final (location_body dt file location st))"
  using assms
  by (auto simp: location_body_def has_comment_def Let_def split: outcome.splits sum.splits prod.splits option.splits)

lemma locations_loop_Done:
  assumes "\<forall>location \<in> set locations. has_comment location \<and> length (Path location) \<noteq> 1 \<longrightarrow>
             buildNamePath (Path location) (StructV (struct_fields file)) \<noteq> Panics"
  shows "locations_loop dt file locations st =
           Done (foldl (\<lambda>st location. final (location_body dt file location st)) st
                   (filter has_comment locations))"
  using assms
proof (induction locations arbitrary: st)
  case Nil
  then show ?case by simp
next
  case (Cons location locations)
  show ?case
  proof (cases "has_comment location")
    case True
    have "location_body dt file location st = Done (final (location_body dt file location st))"
      using Cons.prems by (intro location_body_Done) simp
    then obtain st' where body: "location_body dt file location st = Done st'" ..
    have "locations_loop dt file locations st' =
            Done (foldl (\<lambda>st location. final (location_body dt file location st)) st'
                    (filter has_comment locations))"
      using Cons.prems by (intro Cons.IH) simp
    then show ?thesis using True body by simp
  next
    case False
    then show ?thesis using Cons by (simp add: location_body_no_comment)
  qed
qed

lemma files_loop_Done:
  assumes "\<forall>file \<in> set files. to_generate req file \<longrightarrow>
             (\<forall>location \<in> set (SourceCodeInfo file).
                has_comment location \<and> length (Path location) \<noteq> 1 \<longrightarrow>
                buildNamePath (Path location) (StructV (struct_fields file)) \<noteq> Panics)"
  shows "files_loop dt req files st =
           Done (foldl (\<lambda>st (file, location). final (location_body dt file location st)) st
                   (concat (map (\<lambda>file. map (Pair file) (filter has_comment (SourceCodeInfo file)))
                              (filter (to_generate req) files))))"
  using assms
proof (induction files arbitrary: st)
  case Nil
  then show ?case by simp
next
  case (Cons f files)
  show ?case
  proof (cases "to_generate req f")
    case True
    then have "locations_loop dt f (SourceCodeInfo f) st =
           Done (foldl (\<lambda>st location. final (location_body dt f location st)) st
                   (filter has_comment (SourceCodeInfo f)))"
      using Cons.prems by (intro locations_loop_Done) simp
    then show ?thesis using True Cons
      by (simp add: skip_loop_eq to_generate_def foldl_map)
  next
    case False
    then show ?thesis using Cons by (simp add: skip_loop_eq to_generate_def)
  qed
qed

lemma location_body_package:
  assumes "has_comment location" and "length (Path location) = 1"
  shows "location_body dt file location (tree, out) =
           Done (SetDescription dt (scrubComments (GetLeadingComments location)) tree,
                 out @ [Debug_package_name (Path location) (cleanStr (GetLeadingComments location))
                          (LeadingDetachedComments location),
                        Call_SetDescription (scrubComments (GetLeadingComments location))])"
  using assms by (simp add: location_body_def has_comment_def Let_def)

lemma location_body_nested:
  assumes "has_comment location" and "length (Path location) \<noteq> 1"
  shows "location_body dt file location (tree, out) =
    (case buildNamePath (Path location) (StructV (struct_fields file)) of
       Panics \<Rightarrow> Panicked (tree, out @ [Debug_finding (Path location)
                   (cleanStr (GetLeadingComments location)) (LeadingDetachedComments location)])
     | Returns (Inl err) \<Rightarrow>
         Done (tree, out @ [Debug_finding (Path location)
                   (cleanStr (GetLeadingComments location)) (LeadingDetachedComments location),
                 Debugf_couldnt_place (cleanStr (GetLeadingComments location)) err])
     | Returns (Inr name_path) \<Rightarrow>
         (case SetComment dt name_path (scrubComments (GetLeadingComments location)) tree of
            (None, tree') \<Rightarrow>
              Done (tree', out @ [Debug_finding (Path location)
                   (cleanStr (GetLeadingComments location)) (LeadingDetachedComments location),
                 Call_SetComment name_path (scrubComments (GetLeadingComments location))])
          | (Some e, tree') \<Rightarrow>
              Done (tree', out @ [Debug_finding (Path location)
                   (cleanStr (GetLeadingComments location)) (LeadingDetachedComments location),
                 Call_SetComment name_path (scrubComments (GetLeadingComments location))]
                 @ (if Contains e ''cannot find node'' then [] else [Errorf_cannot_set e]))))"
  using assms
  by (simp add: location_body_def has_comment_def Let_def
           split: outcome.splits sum.splits prod.splits option.splits)

lemma location_body_writes:
  assumes "\<forall>e \<in> set (snd st). \<forall>text. written_text e = Some text \<longrightarrow> text \<in> T"
    and "scrubComments (GetLeadingComments location) \<in> T"
  shows "\<forall>e \<in> set (snd (final (location_body dt file location st))).
           \<forall>text. written_text e = Some text \<longrightarrow> text \<in> T"
  using assms
  by (auto simp: location_body_def Let_def split: outcome.splits sum.splits prod.splits option.splits)

lemma locations_loop_writes:
  assumes "\<forall>e \<in> set (snd st). \<forall>text. written_text e = Some text \<longrightarrow> text \<in> T"
    and "\<forall>location \<in> set locations. scrubComments (GetLeadingComments location) \<in> T"
  shows "\<forall>e \<in> set (snd (final (locations_loop dt file locations st))).
           \<forall>text. written_text e = Some text \<longrightarrow> text \<in> T"
  using assms
proof (induction locations arbitrary: st)
  case Nil
  then show ?case by simp
next
  case (Cons location locations)
  have step: "\<forall>e \<in> set (snd (final (location_body dt file location st))).
           \<forall>text. written_text e = Some text \<longrightarrow> text \<in> T"
    using Cons.prems by (intro location_body_writes) simp_all
  show ?case
  proof (cases "location_body dt file location st")
    case (Done st')
    with step have "\<forall>e \<in> set (snd st'). \<forall>text. written_text e = Some text \<longrightarrow> text \<in> T"
      by simp
    then have "\<forall>e \<in> set (snd (final (locations_loop dt file locations st'))).
           \<forall>text. written_text e = Some text \<longrightarrow> text \<in> T"
      using Cons.prems by (intro Cons.IH) simp_all
    then show ?thesis using Done by simp
  next
    case (Panicked st')
    with step show ?thesis by simp
  qed
qed

lemma files_loop_writes:
  assumes "\<forall>e \<in> set (snd st). \<forall>text. written_text e = Some text \<longrightarrow> text \<in> T"
    and "\<forall>file \<in> set files. \<forall>location \<in> set (SourceCodeInfo file).
           scrubComments (GetLeadingComments location) \<in> T"
  shows "\<forall>e \<in> set (snd (final (files_loop dt req files st))).
           \<forall>text. written_text e = Some text \<longrightarrow> text \<in> T"
  using assms
proof (induction files arbitrary: st)
  case Nil
  then show ?case by simp
next
  case (Cons f files)
  have rest: "\<forall>e \<in> set (snd (final (files_loop dt req files st'))).
           \<forall>text. written_text e = Some text \<longrightarrow> text \<in> T"
    if "\<forall>e \<in> set (snd st'). \<forall>text. written_text e = Some text \<longrightarrow> text \<in> T" for st'
    using that Cons.prems by (intro Cons.IH) simp_all
  show ?case
  proof (cases "skip_loop f (FileToGenerate req) True")
    case True
    then show ?thesis using rest [of st] Cons.prems by simp
  next
    case False
    have step: "\<forall>e \<in> set (snd (final (locations_loop dt f (SourceCodeInfo f) st))).
           \<forall>text. written_text e = Some text \<longrightarrow> text \<in> T"
      using Cons.prems by (intro locations_loop_writes) simp_all
    show ?thesis
    proof (cases "locations_loop dt f (SourceCodeInfo f) st")
      case (Done st')
      with step rest [of st'] False show ?thesis by simp
    next
      case (Panicked st')
      with step False show ?thesis by simp
    qed
  qed
qed

text \<open>The example comments and paths, evaluated.\<close>

lemma scrub_package: "scrubComments '' General package\<newline>'' = ''General package''"
  by (simp add: scrubComments_def Replace.simps beginning_slash_def trailing_whitespace_def
        isSpace_def)

lemma clean_package: "cleanStr '' General package\<newline>'' = '' General package'' @ [CHR 0x5C, CHR ''n'']"
  by (simp add: cleanStr_def Replace.simps)

lemma scrub_widget: "scrubComments '' Widget is so foo\<newline>'' = ''Widget is so foo''"
  by (simp add: scrubComments_def Replace.simps beginning_slash_def trailing_whitespace_def
        isSpace_def)

lemma clean_widget:
  "cleanStr '' Widget is so foo\<newline>'' = '' Widget is so foo'' @ [CHR 0x5C, CHR ''n'']"
  by (simp add: cleanStr_def Replace.simps)

lemma clean_no_such: "cleanStr '' no such message\<newline>'' = '' no such message'' @ [CHR 0x5C, CHR ''n'']"
  by (simp add: cleanStr_def Replace.simps)

lemma example_file_GetName: "GetName \<lparr> struct_fields = file_fields, SourceCodeInfo = locations \<rparr> = ''svc.proto''"
  by (simp add: GetName_def file_fields_def)

lemma resolve_widget: "buildNamePath [4, 0] (StructV file_fields) = Returns (Inr [''svc.proto'', ''Widget''])"
  by (simp add: buildNamePath.simps file_fields_def widget_fields_def Name_of_def Atoi_def
        isDigit_def protoFieldLabel_def)

lemma resolve_negative: "buildNamePath [4, - 1] (StructV file_fields) = Panics"
  by (simp add: buildNamePath.simps file_fields_def widget_fields_def Name_of_def Atoi_def
        isDigit_def protoFieldLabel_def)

lemma resolve_too_long: "buildNamePath [4, 5] (StructV file_fields) = Returns (Inl (SecondItemTooLong 5 1))"
  by (simp add: buildNamePath.simps file_fields_def widget_fields_def Name_of_def Atoi_def
        isDigit_def protoFieldLabel_def)

text \<open>The steps of the scrubber: when a step changes nothing, and that no step lengthens.\<close>

lemma Contains_prefix: "Contains s (a @ b) \<Longrightarrow> Contains s a"
proof (induction s)
  case Nil
  then show ?case by simp
next
  case (Cons c cs)
  have "take (length a) (c # cs) = a" if "take (length (a @ b)) (c # cs) = a @ b"
  proof -
    have "take (length a) (take (length (a @ b)) (c # cs)) = take (length a) (a @ b)"
      using that by simp
    then show ?thesis by (simp add: min_def)
  qed
  with Cons show ?case by auto
qed

lemma Replace_Nil: "Replace [] old new = []"
  by (simp add: Replace.simps)

lemma Replace_no_match: "\<not> Contains s old \<Longrightarrow> Replace s old new = s"
proof (induction s)
  case Nil
  then show ?case by (simp add: Replace_Nil)
next
  case (Cons c cs)
  then have "take (length old) (c # cs) \<noteq> old" and "Replace cs old new = cs"
    by auto
  then show ?case by (subst Replace.simps) simp
qed

lemma beginning_slash_id:
  "s = [] \<or> (hd s \<noteq> CHR ''/'' \<and> \<not> isSpace (hd s)) \<Longrightarrow> beginning_slash s = s"
  by (cases s) (auto simp: beginning_slash_def)

lemma trailing_whitespace_id:
  "s = [] \<or> \<not> isSpace (last s) \<Longrightarrow> trailing_whitespace s = s"
  by (cases s rule: rev_cases) (auto simp: trailing_whitespace_def)

lemma beginning_slash_hd:
  "beginning_slash s = [] \<or> \<not> isSpace (hd (beginning_slash s))"
  unfolding beginning_slash_def by (metis hd_dropWhile)

lemma trailing_whitespace_ends:
  assumes "u = [] \<or> \<not> isSpace (hd u)"
  shows "(trailing_whitespace u = [] \<longleftrightarrow> u = []) \<and>
         hd (trailing_whitespace u) = hd u \<and>
         (trailing_whitespace u = [] \<or> \<not> isSpace (last (trailing_whitespace u)))"
proof (cases u)
  case Nil
  then show ?thesis by (simp add: trailing_whitespace_def)
next
  case (Cons a u')
  with assms have a: "\<not> isSpace a" by simp
  have "dropWhile isSpace (rev u' @ [a]) = dropWhile isSpace (rev u') @ [a]"
    using a by (simp add: dropWhile_append)
  then have eq: "trailing_whitespace u = a # rev (dropWhile isSpace (rev u'))"
    using Cons by (simp add: trailing_whitespace_def)
  have "\<not> isSpace (last (trailing_whitespace u))"
  proof (cases "dropWhile isSpace (rev u')")
    case Nil
    then show ?thesis using eq a by simp
  next
    case (Cons b bs)
    then have "\<not> isSpace b" by (metis hd_dropWhile list.sel(1) list.discI)
    then show ?thesis using eq Cons by simp
  qed
  then show ?thesis using eq Cons by simp
qed

lemma line_trail_ws_Nil_iff: "line_trail_ws s = [] \<longleftrightarrow> s = []"
  by (cases s) auto

lemma line_trail_ws_hd: "\<not> isSpace (hd s) \<Longrightarrow> hd (line_trail_ws s) = hd s"
  by (cases s) auto

lemma after_last_newline_set:
  "set (after_last_newline run) \<subseteq> set run \<and> CHR ''\<newline>'' \<notin> set (after_last_newline run)"
proof -
  have "set (takeWhile (\<lambda>c. c \<noteq> CHR ''\<newline>'') (rev run)) \<subseteq> set (rev run)"
    by (auto dest: set_takeWhileD)
  moreover have "CHR ''\<newline>'' \<notin> set (takeWhile (\<lambda>c. c \<noteq> CHR ''\<newline>'') (rev run))"
    by (auto dest: set_takeWhileD)
  ultimately show ?thesis by (simp add: after_last_newline_def)
qed

lemma line_trail_ws_settled_run:
  assumes "isSpace x" and "\<forall>z \<in> set xs. isSpace z" and "CHR ''\<newline>'' \<notin> set xs"
    and "Y = [] \<or> \<not> isSpace (hd Y)"
  shows "line_trail_ws (x # xs @ Y) = (x # xs) @ line_trail_ws Y"
proof -
  have "takeWhile isSpace Y = []" and "dropWhile isSpace Y = Y"
    using assms(4) by (cases Y; simp)+
  then have "takeWhile isSpace (xs @ Y) = xs" and "dropWhile isSpace (xs @ Y) = Y"
    using assms(2) by (simp_all add: takeWhile_append2 dropWhile_append2)
  then show ?thesis using assms(1,3) by simp
qed

lemma line_trail_ws_idem: "line_trail_ws (line_trail_ws s) = line_trail_ws s"
proof (induction s rule: line_trail_ws.induct)
  case 1
  then show ?case by simp
next
  case (2 c cs)
  show ?case
  proof (cases "isSpace c")
    case False
    with 2 show ?thesis by simp
  next
    case True
    let ?run = "takeWhile isSpace cs"
    let ?Y = "line_trail_ws (dropWhile isSpace cs)"
    have idem: "line_trail_ws ?Y = ?Y" using 2 True by simp
    have Y: "?Y = [] \<or> \<not> isSpace (hd ?Y)"
      by (metis hd_dropWhile line_trail_ws_Nil_iff line_trail_ws_hd)
    have run: "\<forall>z \<in> set ?run. isSpace z" by (auto dest: set_takeWhileD)
    show ?thesis
    proof (cases "CHR ''\<newline>'' \<in> set ?run")
      case nl: True
      have "\<forall>z \<in> set (after_last_newline ?run). isSpace z"
        using after_last_newline_set [of ?run] run by blast
      moreover have "CHR ''\<newline>'' \<notin> set (after_last_newline ?run)"
        using after_last_newline_set by blast
      moreover have "isSpace CHR ''\<newline>''" by (simp add: isSpace_def)
      ultimately have "line_trail_ws (CHR ''\<newline>'' # after_last_newline ?run @ ?Y)
          = (CHR ''\<newline>'' # after_last_newline ?run) @ line_trail_ws ?Y"
        using Y by (intro line_trail_ws_settled_run)
      then show ?thesis using True nl idem by simp
    next
      case nl: False
      have "line_trail_ws (c # ?run @ ?Y) = (c # ?run) @ line_trail_ws ?Y"
        using True run nl Y by (intro line_trail_ws_settled_run)
      then show ?thesis using True nl idem by simp
    qed
  qed
qed

lemma last_dropWhile: "dropWhile P xs \<noteq> [] \<Longrightarrow> last (dropWhile P xs) = last xs"
  by (metis last_appendR takeWhile_dropWhile_id)

lemma line_trail_ws_last:
  "s \<noteq> [] \<Longrightarrow> \<not> isSpace (last s) \<Longrightarrow> last (line_trail_ws s) = last s"
proof (induction s rule: line_trail_ws.induct)
  case 1
  then show ?case by simp
next
  case (2 c cs)
  show ?case
  proof (cases "isSpace c")
    case False
    show ?thesis
    proof (cases "cs = []")
      case True
      with False show ?thesis by simp
    next
      case ne: False
      then have "last (line_trail_ws cs) = last cs" using 2 False by simp
      then show ?thesis using False ne by (simp add: line_trail_ws_Nil_iff)
    qed
  next
    case True
    have ne: "cs \<noteq> []" using True "2.prems" by auto
    have r: "dropWhile isSpace cs \<noteq> []"
    proof
      assume "dropWhile isSpace cs = []"
      then have "\<forall>z \<in> set cs. isSpace z" by (simp add: dropWhile_eq_Nil_conv)
      then have "isSpace (last cs)" using ne by simp
      then show False using "2.prems" ne by simp
    qed
    then have lr: "last (dropWhile isSpace cs) = last cs" by (rule last_dropWhile)
    then have "last (line_trail_ws (dropWhile isSpace cs)) = last cs"
      using 2 True r ne by simp
    then show ?thesis using True r ne by (simp add: line_trail_ws_Nil_iff)
  qed
qed

lemma scrubComments_ends:
  "scrubComments s = [] \<or>
     (\<not> isSpace (hd (scrubComments s)) \<and> \<not> isSpace (last (scrubComments s)))"
proof -
  define u where "u = beginning_slash (Replace (Replace s ''\<newline>/ '' ''\<newline>'') ''\<newline>/'' ''\<newline>'')"
  define v where "v = trailing_whitespace u"
  have t: "scrubComments s = line_trail_ws v"
    by (simp add: scrubComments_def u_def v_def)
  have u: "u = [] \<or> \<not> isSpace (hd u)" unfolding u_def by (rule beginning_slash_hd)
  from trailing_whitespace_ends [OF u]
  have v: "v = [] \<or> (\<not> isSpace (hd v) \<and> \<not> isSpace (last v))"
    unfolding v_def using u by auto
  show ?thesis
  proof (cases "v = []")
    case True
    then show ?thesis by (simp add: t)
  next
    case False
    with v have "\<not> isSpace (hd v)" "\<not> isSpace (last v)" by auto
    then show ?thesis
      using False by (simp add: t line_trail_ws_hd line_trail_ws_last)
  qed
qed

lemma scrubComments_settled: "line_trail_ws (scrubComments s) = scrubComments s"
  by (simp add: scrubComments_def line_trail_ws_idem)

lemma scrubComments_fixed:
  assumes "\<not> Contains (scrubComments s) ''\<newline>/''"
    and "take 1 (scrubComments s) \<noteq> ''/''"
  shows "scrubComments (scrubComments s) = scrubComments s"
proof -
  let ?t = "scrubComments s"
  have "\<not> Contains ?t (''\<newline>/'' @ '' '')"
    using assms(1) Contains_prefix by blast
  then have r1: "Replace ?t ''\<newline>/ '' ''\<newline>'' = ?t"
    by (intro Replace_no_match) simp
  have r2: "Replace ?t ''\<newline>/'' ''\<newline>'' = ?t"
    using assms(1) by (rule Replace_no_match)
  have ends: "?t = [] \<or> (\<not> isSpace (hd ?t) \<and> \<not> isSpace (last ?t))"
    by (rule scrubComments_ends)
  have "?t = [] \<or> (hd ?t \<noteq> CHR ''/'' \<and> \<not> isSpace (hd ?t))"
    using ends assms(2) by (cases ?t) auto
  then have b: "beginning_slash ?t = ?t" by (rule beginning_slash_id)
  have w: "trailing_whitespace ?t = ?t"
    using ends by (intro trailing_whitespace_id) auto
  have "scrubComments ?t = line_trail_ws ?t"
    by (subst scrubComments_def) (simp add: r1 r2 b w)
  then show ?thesis by (simp add: scrubComments_settled)
qed

lemma take_eq_length: "take (length old) s = old \<Longrightarrow> length old \<le> length s"
proof -
  assume "take (length old) s = old"
  then have "length (take (length old) s) = length old" by simp
  then show ?thesis by (simp add: min_def split: if_splits)
qed

lemma length_Replace_le:
  "length new \<le> length old \<Longrightarrow> length (Replace s old new) \<le> length s"
proof (induction s old new rule: Replace.induct)
  case (1 s old new)
  show ?case
  proof (cases "s = [] \<or> old = []")
    case True
    then show ?thesis by (subst Replace.simps) simp
  next
    case False
    show ?thesis
    proof (cases "take (length old) s = old")
      case True
      then have "length old \<le> length s" by (rule take_eq_length)
      moreover have "length (Replace (drop (length old) s) old new) \<le> length s - length old"
        using 1 False True by simp
      ultimately show ?thesis using False True "1.prems"
        by (subst Replace.simps) simp
    next
      case no: False
      then have "length (Replace (tl s) old new) \<le> length s - 1"
        using 1 False by simp
      then show ?thesis using False no
        by (subst Replace.simps) (cases s; simp)
    qed
  qed
qed

lemma length_Replace_less:
  "length new < length old \<Longrightarrow> Contains s old \<Longrightarrow> length (Replace s old new) < length s"
proof (induction s)
  case Nil
  then show ?case by simp
next
  case (Cons c cs)
  show ?case
  proof (cases "take (length old) (c # cs) = old")
    case True
    then have "length old \<le> length (c # cs)" by (rule take_eq_length)
    moreover have "length (Replace (drop (length old) (c # cs)) old new)
        \<le> length (c # cs) - length old"
      using length_Replace_le [of new old "drop (length old) (c # cs)"] Cons.prems by simp
    ultimately show ?thesis using True Cons.prems
      by (subst Replace.simps) auto
  next
    case False
    then have "Contains cs old" using Cons.prems by simp
    then have "length (Replace cs old new) < length cs" using Cons by simp
    then show ?thesis using False Cons.prems
      by (subst Replace.simps) auto
  qed
qed

lemma length_beginning_slash: "length (beginning_slash s) \<le> length s"
  unfolding beginning_slash_def
  by (meson length_dropWhile_le order_trans)

lemma length_beginning_slash_less:
  "take 1 s = ''/'' \<Longrightarrow> length (beginning_slash s) < length s"
proof (cases s)
  case Nil
  assume "take 1 s = ''/''"
  with Nil show ?thesis by simp
next
  case (Cons c cs)
  assume "take 1 s = ''/''"
  with Cons have c: "c = CHR ''/''" by simp
  have "length (dropWhile isSpace (dropWhile (\<lambda>c. c = CHR ''/'') cs)) \<le> length cs"
    by (meson length_dropWhile_le order_trans)
  then show ?thesis using Cons c by (simp add: beginning_slash_def)
qed

lemma length_trailing_whitespace: "length (trailing_whitespace s) \<le> length s"
  unfolding trailing_whitespace_def
  by (metis length_dropWhile_le length_rev)

lemma length_after_last_newline: "length (after_last_newline run) \<le> length run"
  unfolding after_last_newline_def
  by (metis length_rev length_takeWhile_le)

lemma length_line_trail_ws: "length (line_trail_ws s) \<le> length s"
proof (induction s rule: line_trail_ws.induct)
  case 1
  then show ?case by simp
next
  case (2 c cs)
  show ?case
  proof (cases "isSpace c")
    case False
    with 2 show ?thesis by simp
  next
    case True
    have split: "length (takeWhile isSpace cs) + length (dropWhile isSpace cs) = length cs"
      by (metis length_append takeWhile_dropWhile_id)
    have "length (line_trail_ws (dropWhile isSpace cs)) \<le> length (dropWhile isSpace cs)"
      using 2 True by simp
    moreover have "length (after_last_newline (takeWhile isSpace cs))
        \<le> length (takeWhile isSpace cs)"
      by (rule length_after_last_newline)
    ultimately show ?thesis using True split by simp
  qed
qed

lemma scrubComments_shortens:
  assumes "Contains t ''\<newline>/'' \<or> take 1 t = ''/''"
  shows "length (scrubComments t) < length t"
proof -
  let ?r1 = "Replace t ''\<newline>/ '' ''\<newline>''"
  let ?r2 = "Replace ?r1 ''\<newline>/'' ''\<newline>''"
  have r1: "length ?r1 \<le> length t" by (rule length_Replace_le) simp
  have r2: "length ?r2 \<le> length ?r1" by (rule length_Replace_le) simp
  have rest: "length (scrubComments t) \<le> length (beginning_slash ?r2)"
    unfolding scrubComments_def Let_def
    by (meson length_line_trail_ws length_trailing_whitespace order_trans)
  have b: "length (beginning_slash ?r2) \<le> length ?r2" by (rule length_beginning_slash)
  show ?thesis
  proof (cases "Contains t ''\<newline>/''")
    case True
    show ?thesis
    proof (cases "Contains t ''\<newline>/ ''")
      case sp: True
      have "length ?r1 < length t" using sp by (intro length_Replace_less) simp_all
      then show ?thesis using r2 b rest by linarith
    next
      case sp: False
      then have "?r1 = t" by (rule Replace_no_match)
      moreover have "length (Replace t ''\<newline>/'' ''\<newline>'') < length t"
        using True by (intro length_Replace_less) simp_all
      ultimately show ?thesis using b rest by simp
    qed
  next
    case False
    then have "\<not> Contains t (''\<newline>/'' @ '' '')" using Contains_prefix by blast
    then have "?r1 = t" by (intro Replace_no_match) simp
    moreover have "Replace t ''\<newline>/'' ''\<newline>'' = t" using False by (rule Replace_no_match)
    moreover have "length (beginning_slash t) < length t"
      using assms False by (intro length_beginning_slash_less) simp
    ultimately show ?thesis using rest by simp
  qed
qed

subsection \<open>The resolver on two and three levels\<close>



subsection \<open>An index beyond the collection\<close>



subsection \<open>A pointer as the current node\<close>




subsection \<open>A field number that no member has\<close>



subsection \<open>Termination\<close>

text \<open>
  C9. The resolver terminates on every input (every argument is in the domain on which
  the recursion is well-founded), and every recursive call strictly shortens the path:
  the call made for a member that is not a collection drops exactly one element, the
  call made for a collection member drops exactly two.
\<close>

theorem resolver_terminates:
  "buildNamePath_dom (path, node0) \<and>
   (\<forall>path' node'. buildNamePath_rel (path', node') (path, node0) \<longrightarrow>
      length path' < length path \<and>
      (\<exists>st_name node field label.
         name_switch node0 = Returns (Inr (st_name, node)) \<and>
         getProtobufField (sint (path ! 0)) node = Returns (Inr (field, label)) \<and>
         (if Kind field \<noteq> Slice then path' = drop 1 path \<and> length path' + 1 = length path
          else path' = drop 2 path \<and> length path' + 2 = length path)))"
proof -
  have "buildNamePath_dom x" for x
  proof (induction x rule: measure_induct_rule [of "\<lambda>(path, node). length path"])
    case (less x)
    show ?case
    proof (rule accp.intros)
      fix y assume "buildNamePath_rel y x"
      then have "length (fst y) < length (fst x)"
        using call_shortens [of "fst y" "snd y" "fst x" "snd x"] by (auto split: if_splits)
      then show "buildNamePath_dom y" using less [of y] by (simp add: case_prod_unfold)
    qed
  qed
  moreover have "length path' < length path \<and>
      (\<exists>st_name node field label.
         name_switch node0 = Returns (Inr (st_name, node)) \<and>
         getProtobufField (sint (path ! 0)) node = Returns (Inr (field, label)) \<and>
         (if Kind field \<noteq> Slice then path' = drop 1 path \<and> length path' + 1 = length path
          else path' = drop 2 path \<and> length path' + 2 = length path))"
    if "buildNamePath_rel (path', node') (path, node0)" for path' node'
  proof -
    from call_shortens [OF that] obtain st_name node field label where
      *: "name_switch node0 = Returns (Inr (st_name, node))"
         "getProtobufField (sint (path ! 0)) node = Returns (Inr (field, label))"
         "2 \<le> length path"
         "if Kind field \<noteq> Slice then path' = drop 1 path \<and> node' = field else path' = drop 2 path"
      by blast
    then have "length path' < length path" by (auto split: if_splits)
    moreover from * have "if Kind field \<noteq> Slice then path' = drop 1 path \<and> length path' + 1 = length path
          else path' = drop 2 path \<and> length path' + 2 = length path"
      by (auto split: if_splits)
    ultimately show ?thesis using * by blast
  qed
  ultimately show ?thesis by blast
qed

theorem resolver_terminates_witness:
  "buildNamePath_rel ([2, 0], StructV widget_fields) ([4, 0, 2, 0], StructV file_fields) \<and>
   length [2::int32, 0] + 2 = length [4::int32, 0, 2, 0] \<and>
   buildNamePath_rel ([0], PtrV (StringV ''svc.proto'')) ([1, 0], StructV file_fields) \<and>
   length [0::int32] + 1 = length [1::int32, 0] \<and>
   buildNamePath_dom ([4, 0, 2, 0], StructV file_fields)"
proof -
  have top: "name_switch (StructV file_fields) = Returns (Inr (''svc.proto'', StructV file_fields))"
    using example_file_Name by simp
  have collection:
    "buildNamePath_rel ([2, 0], StructV widget_fields) ([4, 0, 2, 0], StructV file_fields)"
    by (rule call_slice [OF top example_file_messages]) simp_all
  have name: "getProtobufField (sint (1::int32)) (StructV file_fields)
                = Returns (Inr (PtrV (StringV ''svc.proto''), ''name''))"
    by (simp add: file_fields_def Atoi_def isDigit_def protoFieldLabel_def)
  have single:
    "buildNamePath_rel ([0], PtrV (StringV ''svc.proto'')) ([1, 0], StructV file_fields)"
    by (rule call_non_slice [OF top name]) simp
  from collection resolver_terminates [of "[4, 0, 2, 0]" "StructV file_fields"]
  have "length [2::int32, 0] < length [4::int32, 0, 2, 0]"
    and "buildNamePath_dom ([4, 0, 2, 0], StructV file_fields)"
    by blast+
  moreover from single resolver_terminates [of "[1, 0]" "StructV file_fields"]
  have "length [0::int32] < length [1::int32, 0]"
    by blast
  ultimately show ?thesis using collection single by simp
qed

subsection \<open>Scrubbing twice\<close>

text \<open>
  C2, as stated, fails: the scrubber removes one slash after each newline and one run of
  slashes at the start, so a second run can find more to remove. Here the first run
  leaves \<open>a\<close>, newline, \<open>/x\<close> and the second removes that slash.
\<close>

theorem scrub_not_idempotent:
  "scrubComments ''a\<newline>//x'' = ''a\<newline>/x'' \<and>
   scrubComments (scrubComments ''a\<newline>//x'') = ''a\<newline>x''"
  by (simp add: scrubComments_def Replace.simps beginning_slash_def trailing_whitespace_def
        isSpace_def)

text \<open>
  C2, amended. Scrubbing a scrubbed comment again changes nothing exactly when the
  scrubbed comment does not begin with a slash and has no newline directly followed by a
  slash.
\<close>

theorem scrub_idempotent_iff:
  "scrubComments (scrubComments s) = scrubComments s \<longleftrightarrow>
     \<not> Contains (scrubComments s) ''\<newline>/'' \<and> take 1 (scrubComments s) \<noteq> ''/''"
proof
  assume idem: "scrubComments (scrubComments s) = scrubComments s"
  show "\<not> Contains (scrubComments s) ''\<newline>/'' \<and> take 1 (scrubComments s) \<noteq> ''/''"
  proof (rule ccontr)
    assume "\<not> ?thesis"
    then have "length (scrubComments (scrubComments s)) < length (scrubComments s)"
      by (intro scrubComments_shortens) blast
    with idem show False by simp
  qed
next
  assume "\<not> Contains (scrubComments s) ''\<newline>/'' \<and> take 1 (scrubComments s) \<noteq> ''/''"
  then show "scrubComments (scrubComments s) = scrubComments s"
    by (intro scrubComments_fixed) simp_all
qed

theorem scrub_idempotent_iff_witness:
  "scrubComments ''// Foo is bar.\<newline>'' = ''Foo is bar.'' \<and>
   scrubComments ''Foo is bar.'' = ''Foo is bar.''"
proof -
  have a: "scrubComments ''// Foo is bar.\<newline>'' = ''Foo is bar.''"
    by (simp add: scrubComments_def Replace.simps beginning_slash_def trailing_whitespace_def
        isSpace_def)
  have "\<not> Contains (scrubComments ''// Foo is bar.\<newline>'') ''\<newline>/'' \<and>
        take 1 (scrubComments ''// Foo is bar.\<newline>'') \<noteq> ''/''"
    by (simp add: a)
  with scrub_idempotent_iff [of "''// Foo is bar.\<newline>''"]
  have "scrubComments (scrubComments ''// Foo is bar.\<newline>'')
          = scrubComments ''// Foo is bar.\<newline>''"
    by blast
  with a show ?thesis by simp
qed

subsection \<open>The scrubber on the comments of the specification\<close>

text \<open>
  C3. The scrubber run on a line comment and on a block comment: the line comment loses its
  slashes and its final newline; the block comment keeps the asterisk that follows its
  first slash, because the expression \<^verbatim>\<open>^/*\s*\<close> matches slashes and white space
  only.
\<close>

theorem scrub_keeps_asterisk:
  "scrubComments ''/* multi\<newline> * line\<newline> */'' = ''* multi\<newline> * line\<newline> */'' \<and>
   scrubComments ''// Foo is bar.\<newline>'' = ''Foo is bar.''"
  by (simp add: scrubComments_def Replace.simps beginning_slash_def trailing_whitespace_def
        isSpace_def)

subsection \<open>The comment of the package\<close>



subsection \<open>One bad location\<close>

text \<open>
  C7, as stated, fails: a panic of the resolver is not recovered anywhere, so it ends
  the pass. The second location of this request has the index \<open>-1\<close>, which passes the
  test of line 188 and makes \<^verbatim>\<open>reflect.Value.Index\<close> panic; the comment of the third
  location, a message that exists, is never written.
\<close>

theorem one_bad_location_aborts_the_pass:
  "AssociateComments (recording_tree (\<lambda>name_path. None)) []
       (request_of [package_location, negative_index_location, widget_location])
     = Panicked ([([], ''General package'')],
                 [Debug_package_name [2] ('' General package'' @ [CHR 0x5C, CHR ''n'']) [],
                  Call_SetDescription ''General package'',
                  Debug_finding [4, - 1] ('' no such message'' @ [CHR 0x5C, CHR ''n'']) []])"
  by (simp add: AssociateComments_def request_of_def example_file_GetName location_body_def
        package_location_def negative_index_location_def widget_location_def
        GetLeadingComments_def recording_tree_def scrub_package clean_package clean_no_such
        resolve_negative)

text \<open>
  C7, amended. If the resolver panics on none of the processed locations, the pass ends
  normally and is the composition, in order, of the loop body on every processed location
  of every file to generate: none is left out. For such a location with a path of length
  other than 1: when the resolver returns an error, the body logs it and leaves the tree
  as it is; when \<^verbatim>\<open>SetComment\<close> returns an error, the body logs it with
  \<^verbatim>\<open>Errorf\<close> unless its text contains "cannot find node", and ends normally either
  way.
\<close>

theorem pass_completes_unless_resolver_panics:
  assumes "\<forall>(file, location) \<in> set (commented_locations req).
             length (Path location) \<noteq> 1 \<longrightarrow>
             buildNamePath (Path location) (StructV (struct_fields file)) \<noteq> Panics"
  shows "AssociateComments dt tree req =
           Done (foldl (\<lambda>st (file, location). final (location_body dt file location st))
                   (tree, []) (commented_locations req)) \<and>
         (has_comment l \<and> length (Path l) \<noteq> 1 \<longrightarrow>
            (buildNamePath (Path l) (StructV (struct_fields f)) = Returns (Inl err) \<longrightarrow>
               location_body dt f l (t, out) =
                 Done (t, out @ [Debug_finding (Path l) (cleanStr (GetLeadingComments l))
                                   (LeadingDetachedComments l),
                                 Debugf_couldnt_place (cleanStr (GetLeadingComments l)) err])) \<and>
            (buildNamePath (Path l) (StructV (struct_fields f)) = Returns (Inr name_path) \<and>
             SetComment dt name_path (scrubComments (GetLeadingComments l)) t = (Some e, t') \<longrightarrow>
               location_body dt f l (t, out) =
                 Done (t', out @ [Debug_finding (Path l) (cleanStr (GetLeadingComments l))
                                    (LeadingDetachedComments l),
                                  Call_SetComment name_path (scrubComments (GetLeadingComments l))]
                             @ (if Contains e ''cannot find node'' then []
                                else [Errorf_cannot_set e]))))"
proof -
  have "\<forall>file \<in> set (ProtoFile req). to_generate req file \<longrightarrow>
             (\<forall>location \<in> set (SourceCodeInfo file).
                has_comment location \<and> length (Path location) \<noteq> 1 \<longrightarrow>
                buildNamePath (Path location) (StructV (struct_fields file)) \<noteq> Panics)"
    using assms by (fastforce simp: commented_locations_def)
  then have "AssociateComments dt tree req =
           Done (foldl (\<lambda>st (file, location). final (location_body dt file location st))
                   (tree, []) (commented_locations req))"
    unfolding AssociateComments_def commented_locations_def by (rule files_loop_Done)
  moreover have "location_body dt f l (t, out) =
                 Done (t, out @ [Debug_finding (Path l) (cleanStr (GetLeadingComments l))
                                   (LeadingDetachedComments l),
                                 Debugf_couldnt_place (cleanStr (GetLeadingComments l)) err])"
    if "has_comment l" "length (Path l) \<noteq> 1"
       "buildNamePath (Path l) (StructV (struct_fields f)) = Returns (Inl err)"
    using that by (simp add: location_body_nested)
  moreover have "location_body dt f l (t, out) =
                 Done (t', out @ [Debug_finding (Path l) (cleanStr (GetLeadingComments l))
                                    (LeadingDetachedComments l),
                                  Call_SetComment name_path (scrubComments (GetLeadingComments l))]
                             @ (if Contains e ''cannot find node'' then []
                                else [Errorf_cannot_set e]))"
    if "has_comment l" "length (Path l) \<noteq> 1"
       "buildNamePath (Path l) (StructV (struct_fields f)) = Returns (Inr name_path)"
       "SetComment dt name_path (scrubComments (GetLeadingComments l)) t = (Some e, t')"
    using that by (simp add: location_body_nested)
  ultimately show ?thesis by blast
qed

theorem pass_completes_unless_resolver_panics_witness:
  "AssociateComments (recording_tree (\<lambda>name_path. Some ''cannot find node'')) []
       (request_of [package_location, index_too_long_location, widget_location])
     = Done ([([], ''General package''), ([''svc.proto'', ''Widget''], ''Widget is so foo'')],
             [Debug_package_name [2] ('' General package'' @ [CHR 0x5C, CHR ''n'']) [],
              Call_SetDescription ''General package'',
              Debug_finding [4, 5] ('' no such message'' @ [CHR 0x5C, CHR ''n'']) [],
              Debugf_couldnt_place ('' no such message'' @ [CHR 0x5C, CHR ''n''])
                (SecondItemTooLong 5 1),
              Debug_finding [4, 0] ('' Widget is so foo'' @ [CHR 0x5C, CHR ''n'']) [],
              Call_SetComment [''svc.proto'', ''Widget''] ''Widget is so foo'']) \<and>
   location_body (recording_tree (\<lambda>name_path. Some ''tree is locked''))
       \<lparr> struct_fields = file_fields, SourceCodeInfo = [] \<rparr> widget_location ([], [])
     = Done ([([''svc.proto'', ''Widget''], ''Widget is so foo'')],
             [Debug_finding [4, 0] ('' Widget is so foo'' @ [CHR 0x5C, CHR ''n'']) [],
              Call_SetComment [''svc.proto'', ''Widget''] ''Widget is so foo'',
              Errorf_cannot_set ''tree is locked''])"
proof -
  let ?req = "request_of [package_location, index_too_long_location, widget_location]"
  let ?file = "\<lparr> struct_fields = file_fields,
                  SourceCodeInfo = [package_location, index_too_long_location, widget_location] \<rparr>"
  have locs: "commented_locations ?req =
      [(?file, package_location), (?file, index_too_long_location), (?file, widget_location)]"
    by (simp add: commented_locations_def request_of_def to_generate_def example_file_GetName
          has_comment_def package_location_def index_too_long_location_def widget_location_def
          GetLeadingComments_def)
  have no_panic: "\<forall>(file, location) \<in> set (commented_locations ?req).
             length (Path location) \<noteq> 1 \<longrightarrow>
             buildNamePath (Path location) (StructV (struct_fields file)) \<noteq> Panics"
    unfolding locs
    by (simp add: package_location_def index_too_long_location_def widget_location_def
          resolve_widget resolve_too_long)
  have whole: "AssociateComments (recording_tree (\<lambda>name_path. Some ''cannot find node'')) [] ?req
     = Done ([([], ''General package''), ([''svc.proto'', ''Widget''], ''Widget is so foo'')],
             [Debug_package_name [2] ('' General package'' @ [CHR 0x5C, CHR ''n'']) [],
              Call_SetDescription ''General package'',
              Debug_finding [4, 5] ('' no such message'' @ [CHR 0x5C, CHR ''n'']) [],
              Debugf_couldnt_place ('' no such message'' @ [CHR 0x5C, CHR ''n''])
                (SecondItemTooLong 5 1),
              Debug_finding [4, 0] ('' Widget is so foo'' @ [CHR 0x5C, CHR ''n'']) [],
              Call_SetComment [''svc.proto'', ''Widget''] ''Widget is so foo''])"
    using pass_completes_unless_resolver_panics [OF no_panic,
        of "recording_tree (\<lambda>name_path. Some ''cannot find node'')" "[]", unfolded locs]
    by (simp add: location_body_def package_location_def index_too_long_location_def
          widget_location_def GetLeadingComments_def recording_tree_def scrub_package
          clean_package clean_no_such scrub_widget clean_widget resolve_widget resolve_too_long)
  have comment: "has_comment widget_location \<and> length (Path widget_location) \<noteq> 1"
    by (simp add: has_comment_def widget_location_def GetLeadingComments_def)
  have resolved: "buildNamePath (Path widget_location)
        (StructV (struct_fields \<lparr> struct_fields = file_fields, SourceCodeInfo = [] \<rparr>))
      = Returns (Inr [''svc.proto'', ''Widget''])"
    by (simp add: widget_location_def resolve_widget)
  have failed: "SetComment (recording_tree (\<lambda>name_path. Some ''tree is locked''))
        [''svc.proto'', ''Widget''] (scrubComments (GetLeadingComments widget_location)) []
      = (Some ''tree is locked'', [([''svc.proto'', ''Widget''], ''Widget is so foo'')])"
    by (simp add: recording_tree_def widget_location_def GetLeadingComments_def scrub_widget)
  have one: "location_body (recording_tree (\<lambda>name_path. Some ''tree is locked''))
       \<lparr> struct_fields = file_fields, SourceCodeInfo = [] \<rparr> widget_location ([], [])
     = Done ([([''svc.proto'', ''Widget''], ''Widget is so foo'')],
             [Debug_finding [4, 0] ('' Widget is so foo'' @ [CHR 0x5C, CHR ''n'']) [],
              Call_SetComment [''svc.proto'', ''Widget''] ''Widget is so foo'',
              Errorf_cannot_set ''tree is locked''])"
    using pass_completes_unless_resolver_panics [OF no_panic,
        of "recording_tree (\<lambda>name_path. Some ''tree is locked'')" "[]" widget_location
          "\<lparr> struct_fields = file_fields, SourceCodeInfo = [] \<rparr>" _ "[]" "[]"
          "[''svc.proto'', ''Widget'']" "''tree is locked''"
          "[([''svc.proto'', ''Widget''], ''Widget is so foo'')]"]
      comment resolved failed
    by (simp add: widget_location_def GetLeadingComments_def scrub_widget clean_widget)
  from whole one show ?thesis by simp
qed

subsection \<open>What is written to the tree\<close>

text \<open>
  C10. Every text that a pass hands to \<^verbatim>\<open>SetDescription\<close> or \<^verbatim>\<open>SetComment\<close>, up to
  its end or to the panic that ends it, is the scrubbed leading comment of a location of
  the request. In particular a location with a leading comment of at most one character
  and more than one detached comment has its scrubbed leading comment written: by
  \<^verbatim>\<open>SetDescription\<close> when its path has length 1, by \<^verbatim>\<open>SetComment\<close> when the
  resolver returns a name path. In the witness the leading comment is absent and the
  description is set to the empty string.
\<close>

theorem only_leading_comment_is_written:
  "(\<forall>e \<in> set (snd (final (AssociateComments dt tree req))).
      \<forall>text. written_text e = Some text \<longrightarrow>
        (\<exists>file \<in> set (ProtoFile req). \<exists>location \<in> set (SourceCodeInfo file).
           text = scrubComments (GetLeadingComments location))) \<and>
   (length (GetLeadingComments l) \<le> 1 \<and> length (LeadingDetachedComments l) > 1 \<longrightarrow>
      (length (Path l) = 1 \<longrightarrow>
         location_body dt f l (t, out) =
           Done (SetDescription dt (scrubComments (GetLeadingComments l)) t,
                 out @ [Debug_package_name (Path l) (cleanStr (GetLeadingComments l))
                          (LeadingDetachedComments l),
                        Call_SetDescription (scrubComments (GetLeadingComments l))])) \<and>
      (length (Path l) \<noteq> 1 \<and>
       buildNamePath (Path l) (StructV (struct_fields f)) = Returns (Inr name_path) \<longrightarrow>
         Call_SetComment name_path (scrubComments (GetLeadingComments l))
           \<in> set (snd (final (location_body dt f l (t, out))))))"
proof -
  let ?T = "{text. \<exists>file \<in> set (ProtoFile req). \<exists>location \<in> set (SourceCodeInfo file).
           text = scrubComments (GetLeadingComments location)}"
  have "\<forall>e \<in> set (snd (final (files_loop dt req (ProtoFile req) (tree, [])))).
           \<forall>text. written_text e = Some text \<longrightarrow> text \<in> ?T"
    by (rule files_loop_writes) auto
  then have first: "\<forall>e \<in> set (snd (final (AssociateComments dt tree req))).
      \<forall>text. written_text e = Some text \<longrightarrow>
        (\<exists>file \<in> set (ProtoFile req). \<exists>location \<in> set (SourceCodeInfo file).
           text = scrubComments (GetLeadingComments location))"
    by (simp add: AssociateComments_def)
  have second: "location_body dt f l (t, out) =
           Done (SetDescription dt (scrubComments (GetLeadingComments l)) t,
                 out @ [Debug_package_name (Path l) (cleanStr (GetLeadingComments l))
                          (LeadingDetachedComments l),
                        Call_SetDescription (scrubComments (GetLeadingComments l))])"
    if "length (LeadingDetachedComments l) > 1" "length (Path l) = 1"
    using that by (intro location_body_package) (simp_all add: has_comment_def)
  have third: "Call_SetComment name_path (scrubComments (GetLeadingComments l))
           \<in> set (snd (final (location_body dt f l (t, out))))"
    if "length (LeadingDetachedComments l) > 1" "length (Path l) \<noteq> 1"
      "buildNamePath (Path l) (StructV (struct_fields f)) = Returns (Inr name_path)"
    using that
    by (simp add: location_body_nested has_comment_def split: prod.splits option.splits)
  from first second third show ?thesis by blast
qed

theorem only_leading_comment_is_written_witness:
  "AssociateComments (recording_tree (\<lambda>name_path. None)) [] (request_of [detached_only_location])
     = Done ([([], '''')],
             [Debug_package_name [2] '''' ['' License text\<newline>'', '' Authors\<newline>''],
              Call_SetDescription '''']) \<and>
   scrubComments (GetLeadingComments detached_only_location) = ''''"
proof -
  have "length (GetLeadingComments detached_only_location) \<le> 1 \<and>
        length (LeadingDetachedComments detached_only_location) > 1"
       "length (Path detached_only_location) = 1"
    by (simp_all add: detached_only_location_def GetLeadingComments_def)
  with only_leading_comment_is_written [of "recording_tree (\<lambda>name_path. None)" "[]"
      "request_of [detached_only_location]" detached_only_location
      "\<lparr> struct_fields = file_fields, SourceCodeInfo = [detached_only_location] \<rparr>" "[]" "[]"]
  have "location_body (recording_tree (\<lambda>name_path. None))
      \<lparr> struct_fields = file_fields, SourceCodeInfo = [detached_only_location] \<rparr>
      detached_only_location ([], [])
    = Done ([([], '''')],
             [Debug_package_name [2] '''' ['' License text\<newline>'', '' Authors\<newline>''],
              Call_SetDescription ''''])"
    by (simp add: detached_only_location_def GetLeadingComments_def recording_tree_def
          scrubComments_def Replace.simps beginning_slash_def trailing_whitespace_def cleanStr_def)
  then show ?thesis
    by (simp add: AssociateComments_def request_of_def example_file_GetName
          detached_only_location_def GetLeadingComments_def
          scrubComments_def Replace.simps beginning_slash_def trailing_whitespace_def)
qed

end
